theory Spec2Isabelle
  imports Main "HOL-Library.AList" "HOL-Library.Multiset"
begin

section \<open>Potluck planner: the item store of \<open>src/server.js\<close>\<close>

text \<open>
  The repository holds two variants of \<open>server.js\<close> that differ only in the persistence
  functions \<open>loadFromDisk\<close> and \<open>saveToDisk\<close>: one keeps the items in a Firestore collection,
  the other in the flat file \<open>data/items.json\<close>. The validator and the four route handlers
  are the same text in both. The model below has one copy of the shared code and both
  persistence layers, selected by the constructor of \<open>backend\<close>.

  What the JavaScript runtime supplies is a parameter of the model:
  \<^item> \<open>now\<close>, the value of \<open>Date.now()\<close>;
  \<^item> \<open>rnd36\<close>, the string \<open>Math.random().toString(36)\<close>;
  \<^item> \<open>lc\<close>, the collation \<open>String.prototype.localeCompare\<close> of the host;
  \<^item> \<open>io\<close>, whether the calls to the durable backend made by one flush or one
    load succeed (\<open>False\<close>: one of them throws or rejects).
\<close>

subsection \<open>Strings\<close>

text \<open>
  A JavaScript string is modelled as a \<open>string\<close> whose characters are the code units
  0..255. \<open>isWhiteSpace\<close> holds of the code units that \<open>String.prototype.trim\<close> strips
  in that range (TAB, LF, VT, FF, CR, SP, NBSP); \<open>toLowerChar\<close> is the lower-case mapping
  of that range (\<open>A\<close>..\<open>Z\<close> and the Latin-1 capitals, the multiplication sign excepted).
\<close>

definition isWhiteSpace :: "char \<Rightarrow> bool" where
  "isWhiteSpace c = ((of_char c :: nat) \<in> set [9, 10, 11, 12, 13, 32, 160])"

definition trim :: "string \<Rightarrow> string" where
  "trim s = rev (dropWhile isWhiteSpace (rev (dropWhile isWhiteSpace s)))"

definition toLowerChar :: "char \<Rightarrow> char" where
  "toLowerChar c =
     (let n = (of_char c :: nat)
      in if (65 \<le> n \<and> n \<le> 90) \<or> (192 \<le> n \<and> n \<le> 222 \<and> n \<noteq> 215)
         then char_of (n + 32) else c)"

definition toLowerCase :: "string \<Rightarrow> string" where
  "toLowerCase s = map toLowerChar s"

text \<open>\<open>s.slice(from, to)\<close> for \<open>0 \<le> from \<le> to\<close>.\<close>

definition slice :: "nat \<Rightarrow> nat \<Rightarrow> string \<Rightarrow> string" where
  "slice from to s = take (to - from) (drop from s)"

subsection \<open>Request bodies\<close>

text \<open>
  \<open>req.body\<close> is whatever \<open>express.json()\<close> parsed. An object is an association list
  in source order; \<open>JSON.parse\<close> keeps the last binding of a repeated key.
  \<open>getProp p k\<close> is \<open>p?.k\<close>, with \<open>None\<close> for \<open>undefined\<close>; it is only used for the
  keys \<open>name\<close>, \<open>dish\<close> and \<open>section\<close>, which no array, primitive or \<open>null\<close> has.
\<close>

datatype json =
    JNull
  | JBool bool
  | JNum int
  | JStr string
  | JArr "json list"
  | JObj "(string \<times> json) list"

fun getProp :: "json \<Rightarrow> string \<Rightarrow> json option" where
  "getProp (JObj kvs) k = map_of (rev kvs) k"
| "getProp _ k = None"

text \<open>\<open>typeof v === 'string' ? f(v) : ''\<close>\<close>

fun stringOr :: "(string \<Rightarrow> string) \<Rightarrow> json option \<Rightarrow> string" where
  "stringOr f (Some (JStr s)) = f s"
| "stringOr f _ = []"

subsection \<open>Items\<close>

text \<open>
  An item is the object that \<open>POST /api/items\<close> builds: an id, three strings and two
  timestamps. The durable backends are taken to hold objects of this shape only, which
  is what this server writes to them.
\<close>

record item =
  item_id :: string
  item_name :: string
  item_dish :: string
  item_section :: string
  createdAt :: int
  updatedAt :: int

text \<open>The \<open>value\<close> of a successful validation: \<open>{ name, dish, section }\<close>.\<close>

record fields =
  v_name :: string
  v_dish :: string
  v_section :: string

definition allowed :: "string list" where
  "allowed = [''appetizers'', ''entree'', ''dessert'', ''beverages'']"

definition NameRequired :: string where
  "NameRequired = ''Name is required''"

definition DishRequired :: string where
  "DishRequired = ''Dish is required''"

definition InvalidSection :: string where
  "InvalidSection = ''Section must be one of appetizers, entree, dessert, beverages''"

text \<open>\<open>validateItem\<close>: \<open>Inl error\<close> is \<open>{ ok: false, error }\<close>, \<open>Inr value\<close> is
  \<open>{ ok: true, value }\<close>.\<close>

definition validateItem :: "json \<Rightarrow> string + fields" where
  "validateItem payload =
     (let name = stringOr trim (getProp payload ''name'');
          dish = stringOr trim (getProp payload ''dish'');
          section = stringOr (\<lambda>s. toLowerCase (trim s)) (getProp payload ''section'')
      in if name = [] then Inl NameRequired
         else if dish = [] then Inl DishRequired
         else if section \<notin> set allowed then Inl InvalidSection
         else Inr \<lparr>v_name = name, v_dish = dish, v_section = section\<rparr>)"

subsection \<open>The store and its two durable backends\<close>

text \<open>
  \<open>memoryStore.items\<close> is a JavaScript \<open>Map\<close>: an association list in insertion order.
  \<open>Map.set\<close> is \<open>AList.update\<close> (a present key keeps its position, a new key goes
  last), \<open>Map.delete\<close> is \<open>AList.delete\<close>, \<open>Map.has\<close> and \<open>Map.get\<close> are \<open>map_of\<close>,
  \<open>Map.values\<close> is \<open>map snd\<close>.

  A Firestore document is the item without its \<open>id\<close> (\<open>rest\<close> in \<open>saveToDisk\<close>); the
  collection is an association list from document id to document. The flat file is the
  array it holds (\<open>JSON.parse\<close> after \<open>JSON.stringify\<close> gives an array of items back).
\<close>

record doc =
  doc_name :: string
  doc_dish :: string
  doc_section :: string
  doc_createdAt :: int
  doc_updatedAt :: int

datatype backend =
    Firestore "(string \<times> doc) list"
  | FlatFile "item list"

record server =
  items :: "(string \<times> item) list"
  backend :: backend

text \<open>\<open>const { id: _omit, ...rest } = item\<close>\<close>

definition rest :: "item \<Rightarrow> doc" where
  "rest it = \<lparr>doc_name = item_name it, doc_dish = item_dish it, doc_section = item_section it,
              doc_createdAt = createdAt it, doc_updatedAt = updatedAt it\<rparr>"

text \<open>\<open>{ id: doc.id, ...data }\<close>\<close>

definition fromDoc :: "string \<Rightarrow> doc \<Rightarrow> item" where
  "fromDoc i d = \<lparr>item_id = i, item_name = doc_name d, item_dish = doc_dish d,
                  item_section = doc_section d, createdAt = doc_createdAt d,
                  updatedAt = doc_updatedAt d\<rparr>"

text \<open>
  A write batch. \<open>batch.set(ref, data, { merge: true })\<close> creates the document or
  overwrites the fields that \<open>data\<close> has, which for a \<open>rest\<close> are all five.
  \<open>batch.commit()\<close> applies the operations in order, all or none.
\<close>

datatype batch_op = BSet string doc | BDelete string

definition mergeDoc :: "doc \<Rightarrow> doc \<Rightarrow> doc" where
  "mergeDoc old d = old\<lparr>doc_name := doc_name d, doc_dish := doc_dish d,
                        doc_section := doc_section d, doc_createdAt := doc_createdAt d,
                        doc_updatedAt := doc_updatedAt d\<rparr>"

fun applyOp :: "batch_op \<Rightarrow> (string \<times> doc) list \<Rightarrow> (string \<times> doc) list" where
  "applyOp (BSet i d) col =
     AList.update i (case map_of col i of None \<Rightarrow> d | Some old \<Rightarrow> mergeDoc old d) col"
| "applyOp (BDelete i) col = AList.delete i col"

definition commit :: "batch_op list \<Rightarrow> (string \<times> doc) list \<Rightarrow> (string \<times> doc) list" where
  "commit batch col = fold applyOp batch col"

text \<open>The batch that the Firestore \<open>saveToDisk\<close> builds from the map and the snapshot.
  \<open>existingIds\<close> and \<open>desiredIds\<close> are \<open>Set\<close>s; a snapshot and a \<open>Map\<close> list each id once.\<close>

definition buildBatch :: "(string \<times> item) list \<Rightarrow> (string \<times> doc) list \<Rightarrow> batch_op list" where
  "buildBatch mem col =
     (let existingIds = remdups (map fst col);
          desiredIds = map fst mem
      in map (\<lambda>(i, it). BSet i (rest it)) mem
         @ map BDelete (filter (\<lambda>i. i \<notin> set desiredIds) existingIds))"

text \<open>
  \<open>saveToDisk\<close>. The Firestore variant catches every error, logs it and returns; the
  flat-file variant lets the rejection of \<open>fs.writeFile\<close> reach its caller (\<open>Inl\<close>).
  A failed write leaves the backend as it was.
\<close>

datatype exn = WriteFailed

definition saveToDisk :: "bool \<Rightarrow> server \<Rightarrow> exn + server" where
  "saveToDisk io st =
     (case backend st of
        Firestore col \<Rightarrow>
          Inr (if io then st\<lparr>backend := Firestore (commit (buildBatch (items st) col) col)\<rparr>
               else st)
      | FlatFile arr \<Rightarrow>
          if io then Inr (st\<lparr>backend := FlatFile (map snd (items st))\<rparr>)
          else Inl WriteFailed)"

text \<open>
  \<open>loadFromDisk\<close>. Both variants clear the map only after the read succeeded, and catch
  and log every error. The flat-file variant skips array elements whose \<open>id\<close> is falsy,
  which for a string is the empty string.
\<close>

definition loadFromDisk :: "bool \<Rightarrow> server \<Rightarrow> server" where
  "loadFromDisk io st =
     (if \<not> io then st
      else case backend st of
        Firestore col \<Rightarrow>
          st\<lparr>items := fold (\<lambda>(i, d) m. AList.update i (fromDoc i d) m) col []\<rparr>
      | FlatFile arr \<Rightarrow>
          st\<lparr>items := fold (\<lambda>it m. if item_id it \<noteq> [] then AList.update (item_id it) it m
                                    else m) arr []\<rparr>)"

subsection \<open>Sorting\<close>

text \<open>
  \<open>Array.prototype.sort\<close> with a comparator is a stable sort: insertion from the right,
  each element going in front of the first one it does not compare greater than.
\<close>

fun insort_cmp :: "('a \<Rightarrow> 'a \<Rightarrow> int) \<Rightarrow> 'a \<Rightarrow> 'a list \<Rightarrow> 'a list" where
  "insort_cmp c x [] = [x]"
| "insort_cmp c x (y # ys) = (if c x y \<le> 0 then x # y # ys else y # insort_cmp c x ys)"

definition sort_cmp :: "('a \<Rightarrow> 'a \<Rightarrow> int) \<Rightarrow> 'a list \<Rightarrow> 'a list" where
  "sort_cmp c xs = foldr (insort_cmp c) xs []"

text \<open>\<open>(a, b) => a.section.localeCompare(b.section) || a.name.localeCompare(b.name)\<close>\<close>

definition compareItems :: "(string \<Rightarrow> string \<Rightarrow> int) \<Rightarrow> item \<Rightarrow> item \<Rightarrow> int" where
  "compareItems lc a b =
     (let c = lc (item_section a) (item_section b)
      in if c \<noteq> 0 then c else lc (item_name a) (item_name b))"

text \<open>
  A consistent comparator in the sense of ECMAScript, which \<open>localeCompare\<close> is: the sign
  flips when the arguments are swapped, and "not greater" is transitive.
\<close>

definition consistent :: "('a \<Rightarrow> 'a \<Rightarrow> int) \<Rightarrow> bool" where
  "consistent c =
     ((\<forall>a b. (c a b < 0) = (0 < c b a)) \<and>
      (\<forall>a b d. c a b \<le> 0 \<and> c b d \<le> 0 \<longrightarrow> c a d \<le> 0))"

text \<open>A comparator to run the model with: code-unit order, as \<open>-1\<close>, \<open>0\<close>, \<open>1\<close>.\<close>

fun unitCompare :: "string \<Rightarrow> string \<Rightarrow> int" where
  "unitCompare [] [] = 0"
| "unitCompare [] (y # ys) = - 1"
| "unitCompare (x # xs) [] = 1"
| "unitCompare (x # xs) (y # ys) =
     (if (of_char x :: nat) < of_char y then - 1
      else if (of_char y :: nat) < of_char x then 1
      else unitCompare xs ys)"

subsection \<open>Route handlers\<close>

datatype body = ErrorBody string | ItemBody item | ItemsBody "item list" | NoBody

record response =
  status :: nat
  body :: body

text \<open>\<open>GET /api/items\<close>\<close>

definition listItems :: "(string \<Rightarrow> string \<Rightarrow> int) \<Rightarrow> server \<Rightarrow> item list" where
  "listItems lc st = sort_cmp (compareItems lc) (map snd (items st))"

definition getItems :: "(string \<Rightarrow> string \<Rightarrow> int) \<Rightarrow> server \<Rightarrow> response" where
  "getItems lc st = \<lparr>status = 200, body = ItemsBody (listItems lc st)\<rparr>"

text \<open>\<open>Math.random().toString(36).slice(2, 10)\<close>\<close>

definition newId :: "string \<Rightarrow> string" where
  "newId rnd36 = slice 2 10 rnd36"

text \<open>\<open>POST /api/items\<close>\<close>

definition postItem :: "bool \<Rightarrow> string \<Rightarrow> int \<Rightarrow> json \<Rightarrow> server \<Rightarrow> response \<times> server" where
  "postItem io rnd36 now reqBody st =
     (case validateItem reqBody of
        Inl error \<Rightarrow> (\<lparr>status = 400, body = ErrorBody error\<rparr>, st)
      | Inr v \<Rightarrow>
          let i = newId rnd36;
              it = \<lparr>item_id = i, item_name = v_name v, item_dish = v_dish v,
                    item_section = v_section v, createdAt = now, updatedAt = now\<rparr>;
              st1 = st\<lparr>items := AList.update i it (items st)\<rparr>
          in (case saveToDisk io st1 of
                Inl err \<Rightarrow> (\<lparr>status = 500, body = ErrorBody ''Failed to create item''\<rparr>, st1)
              | Inr st2 \<Rightarrow> (\<lparr>status = 201, body = ItemBody it\<rparr>, st2)))"

text \<open>\<open>PUT /api/items/:id\<close>; \<open>{ ...existing, ...value, updatedAt: now }\<close> is the record
  update of the three validated fields and \<open>updatedAt\<close>.\<close>

definition merged :: "item \<Rightarrow> fields \<Rightarrow> int \<Rightarrow> item" where
  "merged existing v now =
     existing\<lparr>item_name := v_name v, item_dish := v_dish v, item_section := v_section v,
              updatedAt := now\<rparr>"

definition putItem :: "bool \<Rightarrow> int \<Rightarrow> string \<Rightarrow> json \<Rightarrow> server \<Rightarrow> response \<times> server" where
  "putItem io now i reqBody st =
     (case validateItem reqBody of
        Inl error \<Rightarrow> (\<lparr>status = 400, body = ErrorBody error\<rparr>, st)
      | Inr v \<Rightarrow>
          (case map_of (items st) i of
             None \<Rightarrow> (\<lparr>status = 404, body = ErrorBody ''Not found''\<rparr>, st)
           | Some existing \<Rightarrow>
               let updated = merged existing v now;
                   st1 = st\<lparr>items := AList.update i updated (items st)\<rparr>
               in (case saveToDisk io st1 of
                     Inl err \<Rightarrow> (\<lparr>status = 500, body = ErrorBody ''Failed to update item''\<rparr>, st1)
                   | Inr st2 \<Rightarrow> (\<lparr>status = 200, body = ItemBody updated\<rparr>, st2))))"

text \<open>\<open>DELETE /api/items/:id\<close>\<close>

definition deleteItem :: "bool \<Rightarrow> string \<Rightarrow> server \<Rightarrow> response \<times> server" where
  "deleteItem io i st =
     (case map_of (items st) i of
        None \<Rightarrow> (\<lparr>status = 404, body = ErrorBody ''Not found''\<rparr>, st)
      | Some existing \<Rightarrow>
          let st1 = st\<lparr>items := AList.delete i (items st)\<rparr>
          in (case saveToDisk io st1 of
                Inl err \<Rightarrow> (\<lparr>status = 500, body = ErrorBody ''Failed to delete item''\<rparr>, st1)
              | Inr st2 \<Rightarrow> (\<lparr>status = 204, body = NoBody\<rparr>, st2)))"

subsection \<open>Invariants and observations\<close>

text \<open>Every key of the map is the \<open>id\<close> of the item stored under it, and keys are not
  repeated (a \<open>Map\<close> has each key once).\<close>

definition store_inv :: "(string \<times> item) list \<Rightarrow> bool" where
  "store_inv m = (distinct (map fst m) \<and> list_all (\<lambda>(k, it). item_id it = k) m)"

text \<open>A Firestore collection has one document per id.\<close>

fun backend_inv :: "backend \<Rightarrow> bool" where
  "backend_inv (Firestore col) = distinct (map fst col)"
| "backend_inv (FlatFile arr) = True"

text \<open>The ids of the records that the durable backend holds.\<close>

fun backend_ids :: "backend \<Rightarrow> string set" where
  "backend_ids (Firestore col) = set (map fst col)"
| "backend_ids (FlatFile arr) = set (map item_id arr)"

text \<open>The items that the durable backend holds, as \<open>loadFromDisk\<close> reads them.\<close>

fun backend_items :: "backend \<Rightarrow> item list" where
  "backend_items (Firestore col) = map (\<lambda>(i, d). fromDoc i d) col"
| "backend_items (FlatFile arr) = arr"

subsection \<open>Sample data\<close>

definition amyPayload :: json where
  "amyPayload = JObj [(''name'', JStr ''Amy''), (''dish'', JStr ''Salad''),
                      (''section'', JStr ''Appetizers'')]"

definition amyPie :: item where
  "amyPie = \<lparr>item_id = ''a1'', item_name = ''Amy'', item_dish = ''Pie'',
             item_section = ''dessert'', createdAt = 100, updatedAt = 100\<rparr>"

definition amyCake :: item where
  "amyCake = \<lparr>item_id = ''b2'', item_name = ''Amy'', item_dish = ''Cake'',
              item_section = ''dessert'', createdAt = 150, updatedAt = 150\<rparr>"

definition bobSoda :: item where
  "bobSoda = \<lparr>item_id = ''c3'', item_name = ''Bob'', item_dish = ''Soda'',
              item_section = ''beverages'', createdAt = 120, updatedAt = 120\<rparr>"


text \<open>"Not a string, or trims to empty", in the words of the specification.\<close>

fun blank :: "json option \<Rightarrow> bool" where
  "blank (Some (JStr s)) = (trim s = [])"
| "blank _ = True"

section \<open>Properties\<close>

subsection \<open>Validation\<close>

lemma stringOr_trim_blank: "(stringOr trim v = []) = blank v"
  by (induction v rule: blank.induct) simp_all

text \<open>
  Claim C3. \<open>validateItem\<close> applies its rules in order, the first failure winning: the
  name error when \<open>name\<close> is not a string or trims to empty, else the dish error when
  \<open>dish\<close> is not a string or trims to empty, else the section error when the trimmed,
  lower-cased \<open>section\<close> is not one of the four allowed values; otherwise it succeeds with
  exactly the trimmed name, the trimmed dish and the trimmed, lower-cased section. Nothing
  else of the payload matters: two payloads with the same \<open>name\<close>, \<open>dish\<close> and \<open>section\<close>
  validate alike, whatever \<open>id\<close> or timestamps they carry.
\<close>

theorem validateItem_rules:
  "validateItem p =
     (if blank (getProp p ''name'') then Inl NameRequired
      else if blank (getProp p ''dish'') then Inl DishRequired
      else if stringOr (\<lambda>s. toLowerCase (trim s)) (getProp p ''section'') \<notin> set allowed
        then Inl InvalidSection
      else Inr \<lparr>v_name = stringOr trim (getProp p ''name''),
                v_dish = stringOr trim (getProp p ''dish''),
                v_section = stringOr (\<lambda>s. toLowerCase (trim s)) (getProp p ''section'')\<rparr>)
   \<and> (\<forall>q. getProp q ''name'' = getProp p ''name'' \<and> getProp q ''dish'' = getProp p ''dish''
          \<and> getProp q ''section'' = getProp p ''section'' \<longrightarrow> validateItem q = validateItem p)"
  by (simp add: validateItem_def Let_def stringOr_trim_blank)

theorem validateItem_rules_witness:
  "validateItem (JObj [(''id'', JStr ''zz''), (''name'', JStr ''  Amy ''), (''dish'', JStr ''Salad''),
       (''section'', JStr '' Appetizers ''), (''createdAt'', JNum 5)])
   = Inr \<lparr>v_name = ''Amy'', v_dish = ''Salad'', v_section = ''appetizers''\<rparr>
   \<and> validateItem (JObj [(''name'', JNum 3), (''dish'', JStr ''Salad'')]) = Inl ''Name is required''"
proof -
  let ?p = "JObj [(''name'', JStr ''  Amy ''), (''dish'', JStr ''Salad''),
       (''section'', JStr '' Appetizers '')]"
  let ?q = "JObj [(''id'', JStr ''zz''), (''name'', JStr ''  Amy ''), (''dish'', JStr ''Salad''),
       (''section'', JStr '' Appetizers ''), (''createdAt'', JNum 5)]"
  have same: "getProp ?q ''name'' = getProp ?p ''name'' \<and> getProp ?q ''dish'' = getProp ?p ''dish''
          \<and> getProp ?q ''section'' = getProp ?p ''section''"
    by simp
  have "validateItem ?q = validateItem ?p"
    using validateItem_rules [of ?p] same by blast
  moreover have "validateItem ?p
      = Inr \<lparr>v_name = ''Amy'', v_dish = ''Salad'', v_section = ''appetizers''\<rparr>"
    by code_simp
  moreover have "validateItem (JObj [(''name'', JNum 3), (''dish'', JStr ''Salad'')])
      = Inl ''Name is required''"
    using validateItem_rules [of "JObj [(''name'', JNum 3), (''dish'', JStr ''Salad'')]"]
    by (simp add: NameRequired_def)
  ultimately show ?thesis by simp
qed

subsection \<open>The flush as the handlers see it\<close>

lemma saveToDisk_items: "saveToDisk io st = Inr st' \<Longrightarrow> items st' = items st"
  by (auto simp: saveToDisk_def split: backend.splits if_splits)

lemma saveToDisk_ok: "\<exists>st'. saveToDisk True st = Inr st'"
  by (simp add: saveToDisk_def split: backend.splits)

lemma saveToDisk_Inl: "saveToDisk io st = Inl e \<Longrightarrow> \<not> io \<and> (\<exists>arr. backend st = FlatFile arr)"
  by (auto simp: saveToDisk_def split: backend.splits if_splits)

lemma update_keys_present:
  "map_of al k = Some old \<Longrightarrow> map fst (AList.update k v al) = map fst al"
  by (simp add: update_keys map_of_eq_None_iff [symmetric])

lemma update_replaces_entry:
  assumes "distinct (map fst al)" "map_of al k = Some old" "old \<noteq> v"
  shows "(k, old) \<notin> set (AList.update k v al)"
proof
  assume "(k, old) \<in> set (AList.update k v al)"
  moreover have "distinct (map fst (AList.update k v al))"
    using assms(1) by (rule distinct_update)
  ultimately have "map_of (AList.update k v al) k = Some old"
    by simp
  then show False
    using assms(3) by (simp add: update_conv')
qed

lemma deleteItem_absent:
  "map_of (items s) i = None \<Longrightarrow>
     deleteItem io i s = (\<lparr>status = 404, body = ErrorBody ''Not found''\<rparr>, s)"
  by (simp add: deleteItem_def)

lemma flat_file_flush_failure_reported:
  "backend st = FlatFile arr \<Longrightarrow>
     status (fst (postItem False rnd36 now reqBody st)) \<in> {400, 500}
   \<and> status (fst (putItem False now i reqBody st)) \<in> {400, 404, 500}
   \<and> status (fst (deleteItem False i st)) \<in> {404, 500}"
  by (simp add: postItem_def putItem_def deleteItem_def saveToDisk_def Let_def
      split: sum.splits option.splits)

lemma firestore_flush_failure_swallowed:
  "backend st = Firestore col \<Longrightarrow>
     status (fst (postItem False rnd36 now reqBody st)) \<in> {400, 201}
   \<and> status (fst (putItem False now i reqBody st)) \<in> {400, 404, 200}
   \<and> status (fst (deleteItem False i st)) \<in> {404, 204}"
  by (simp add: postItem_def putItem_def deleteItem_def saveToDisk_def Let_def
      split: sum.splits option.splits)

text \<open>
  Claim C1. A create whose flush fails: the Firestore \<open>saveToDisk\<close> catches the error
  itself, so \<open>POST /api/items\<close> answers 201 with the item while the collection is
  unchanged. (With the flat file the same failure is answered with 500, see
  \<open>flat_file_flush_failure_reported\<close>.)
\<close>

theorem post_firestore_flush_failure:
  "postItem False ''0.4fzyo82mvyr'' 1000 amyPayload \<lparr>items = [], backend = Firestore []\<rparr>
     = (\<lparr>status = 201, body = ItemBody \<lparr>item_id = ''4fzyo82m'', item_name = ''Amy'',
            item_dish = ''Salad'', item_section = ''appetizers'', createdAt = 1000,
            updatedAt = 1000\<rparr>\<rparr>,
        \<lparr>items = [(''4fzyo82m'', \<lparr>item_id = ''4fzyo82m'', item_name = ''Amy'',
            item_dish = ''Salad'', item_section = ''appetizers'', createdAt = 1000,
            updatedAt = 1000\<rparr>)], backend = Firestore []\<rparr>)"
  by code_simp

subsection \<open>Sorting with a consistent comparator\<close>

lemma consistent_flip: "consistent c \<Longrightarrow> (c a b < 0) = (0 < c b a)"
  by (simp add: consistent_def)

lemma consistent_trans: "consistent c \<Longrightarrow> c a b \<le> 0 \<Longrightarrow> c b d \<le> 0 \<Longrightarrow> c a d \<le> 0"
  unfolding consistent_def by blast

lemma consistent_total: "consistent c \<Longrightarrow> \<not> c a b \<le> 0 \<Longrightarrow> c b a \<le> 0"
  using consistent_flip [of c b a] by simp

lemma consistent_refl: "consistent c \<Longrightarrow> c a a = 0"
  using consistent_flip [of c a a] by arith

lemma consistent_zero_sym: "consistent c \<Longrightarrow> c a b = 0 \<Longrightarrow> c b a = 0"
  using consistent_flip [of c a b] consistent_flip [of c b a] by arith

lemma consistent_less_le_trans:
  assumes "consistent c" "c a b < 0" "c b d \<le> 0"
  shows "c a d < 0"
proof (rule ccontr)
  assume "\<not> c a d < 0"
  then have "c d a \<le> 0"
    using consistent_flip [OF assms(1), of d a] consistent_flip [OF assms(1), of a d] by simp
  with assms(3) have "c b a \<le> 0"
    using consistent_trans [OF assms(1)] by blast
  then show False
    using assms(2) consistent_flip [OF assms(1), of a b] by simp
qed

lemma consistent_le_less_trans:
  assumes "consistent c" "c a b \<le> 0" "c b d < 0"
  shows "c a d < 0"
proof (rule ccontr)
  assume "\<not> c a d < 0"
  then have "c d a \<le> 0"
    using consistent_flip [OF assms(1), of d a] consistent_flip [OF assms(1), of a d] by simp
  with assms(2) have "c d b \<le> 0"
    using consistent_trans [OF assms(1)] by blast
  then show False
    using assms(3) consistent_flip [OF assms(1), of b d] by simp
qed

lemma consistent_zero_trans:
  assumes "consistent c" "c a b = 0" "c b d = 0"
  shows "c a d = 0"
proof -
  have "c a d \<le> 0"
    using consistent_trans [OF assms(1), of a b d] assms by simp
  moreover have "c d a \<le> 0"
    using consistent_trans [OF assms(1), of d b a] consistent_zero_sym [OF assms(1)] assms by simp
  ultimately show ?thesis
    using consistent_flip [OF assms(1), of a d] by arith
qed

lemma compareItems_le_iff:
  "(compareItems lc a b \<le> 0) =
     (lc (item_section a) (item_section b) < 0
      \<or> (lc (item_section a) (item_section b) = 0 \<and> lc (item_name a) (item_name b) \<le> 0))"
  by (auto simp: compareItems_def Let_def)

lemma compareItems_less_iff:
  "(compareItems lc a b < 0) =
     (lc (item_section a) (item_section b) < 0
      \<or> (lc (item_section a) (item_section b) = 0 \<and> lc (item_name a) (item_name b) < 0))"
  by (auto simp: compareItems_def Let_def)

lemma compareItems_greater_iff:
  "(0 < compareItems lc a b) =
     (0 < lc (item_section a) (item_section b)
      \<or> (lc (item_section a) (item_section b) = 0 \<and> 0 < lc (item_name a) (item_name b)))"
  by (auto simp: compareItems_def Let_def)

lemma consistent_compareItems:
  assumes "consistent lc"
  shows "consistent (compareItems lc)"
  unfolding consistent_def
proof (intro conjI allI impI)
  fix a b
  show "(compareItems lc a b < 0) = (0 < compareItems lc b a)"
    unfolding compareItems_less_iff compareItems_greater_iff
    using consistent_flip [OF assms, of "item_section a" "item_section b"]
      consistent_flip [OF assms, of "item_name a" "item_name b"]
      consistent_zero_sym [OF assms, of "item_section a" "item_section b"]
      consistent_zero_sym [OF assms, of "item_section b" "item_section a"]
    by auto
next
  fix a b d
  assume "compareItems lc a b \<le> 0 \<and> compareItems lc b d \<le> 0"
  then show "compareItems lc a d \<le> 0"
    unfolding compareItems_le_iff
    using consistent_less_le_trans [OF assms, of "item_section a" "item_section b" "item_section d"]
      consistent_le_less_trans [OF assms, of "item_section a" "item_section b" "item_section d"]
      consistent_zero_trans [OF assms, of "item_section a" "item_section b" "item_section d"]
      consistent_trans [OF assms, of "item_name a" "item_name b" "item_name d"]
    by auto
qed

lemma set_insort_cmp: "set (insort_cmp c x ys) = insert x (set ys)"
  by (induction ys) auto

lemma mset_insort_cmp: "mset (insort_cmp c x ys) = add_mset x (mset ys)"
  by (induction ys) auto

lemma mset_sort_cmp: "mset (sort_cmp c xs) = mset xs"
  by (induction xs) (simp_all add: sort_cmp_def mset_insort_cmp)

lemma set_sort_cmp: "set (sort_cmp c xs) = set xs"
  using mset_sort_cmp [of c xs] by (metis set_mset_mset)

lemma sorted_insort_cmp:
  assumes "consistent c" "sorted_wrt (\<lambda>a b. c a b \<le> 0) ys"
  shows "sorted_wrt (\<lambda>a b. c a b \<le> 0) (insort_cmp c x ys)"
  using assms(2)
proof (induction ys)
  case Nil
  then show ?case by simp
next
  case (Cons y ys)
  show ?case
  proof (cases "c x y \<le> 0")
    case True
    then have "\<forall>z\<in>set ys. c x z \<le> 0"
      using Cons.prems consistent_trans [OF assms(1), of x y] by auto
    with True Cons.prems show ?thesis by simp
  next
    case False
    then have "c y x \<le> 0"
      by (rule consistent_total [OF assms(1)])
    with False Cons show ?thesis
      by (simp add: set_insort_cmp)
  qed
qed

lemma sorted_sort_cmp:
  "consistent c \<Longrightarrow> sorted_wrt (\<lambda>a b. c a b \<le> 0) (sort_cmp c xs)"
  by (induction xs) (simp_all add: sort_cmp_def sorted_insort_cmp)

lemma filter_insort_cmp_other:
  "\<not> P x \<Longrightarrow> filter P (insort_cmp c x ys) = filter P ys"
  by (induction ys) simp_all

lemma filter_insort_cmp_front:
  "P x \<Longrightarrow> (\<And>y. P y \<Longrightarrow> c x y \<le> 0) \<Longrightarrow> filter P (insort_cmp c x ys) = x # filter P ys"
  by (induction ys) auto

lemma sort_cmp_stable:
  assumes "consistent c"
  shows "filter (\<lambda>y. c k y = 0) (sort_cmp c xs) = filter (\<lambda>y. c k y = 0) xs"
proof (induction xs)
  case Nil
  then show ?case by (simp add: sort_cmp_def)
next
  case (Cons x xs)
  have step: "sort_cmp c (x # xs) = insort_cmp c x (sort_cmp c xs)"
    by (simp add: sort_cmp_def)
  show ?case
  proof (cases "c k x = 0")
    case True
    have "c x y \<le> 0" if "c k y = 0" for y
      using consistent_zero_trans [OF assms consistent_zero_sym [OF assms True] that] by simp
    then have "filter (\<lambda>y. c k y = 0) (insort_cmp c x (sort_cmp c xs))
        = x # filter (\<lambda>y. c k y = 0) (sort_cmp c xs)"
      using True by (intro filter_insort_cmp_front) simp_all
    with True Cons show ?thesis by (simp add: step)
  next
    case False
    with Cons show ?thesis by (simp add: step filter_insort_cmp_other)
  qed
qed

lemma strict_sorted_unique:
  assumes irrefl: "\<And>a. \<not> R a a"
    and asym: "\<And>a b. R a b \<Longrightarrow> \<not> R b a"
  shows "sorted_wrt R xs \<Longrightarrow> sorted_wrt R ys \<Longrightarrow> set xs = set ys \<Longrightarrow> xs = ys"
proof (induction xs arbitrary: ys)
  case Nil
  then show ?case by simp
next
  case (Cons x xs)
  then obtain y ys' where ys: "ys = y # ys'"
    by (cases ys) auto
  have xy: "x = y"
  proof (rule ccontr)
    assume ne: "x \<noteq> y"
    have "x \<in> set ys'" using Cons.prems(3) ne ys by auto
    then have "R y x" using Cons.prems(2) ys by simp
    moreover have "y \<in> set xs" using Cons.prems(3) ne ys by auto
    then have "R x y" using Cons.prems(1) by simp
    ultimately show False using asym by blast
  qed
  have "x \<notin> set xs" using Cons.prems(1) irrefl by auto
  moreover have "y \<notin> set ys'" using Cons.prems(2) ys irrefl by auto
  ultimately have "set xs = set ys'"
    using Cons.prems(3) ys xy by auto
  then have "xs = ys'"
    using Cons.IH [of ys'] Cons.prems(1,2) ys by simp
  with xy ys show ?case by simp
qed

lemma unitCompare_flip: "(unitCompare a b < 0) = (0 < unitCompare b a)"
  by (induction a b rule: unitCompare.induct) auto

lemma unitCompare_Cons_le:
  "(unitCompare (x # xs) (y # ys) \<le> 0) =
     ((of_char x :: nat) < of_char y \<or> ((of_char x :: nat) = of_char y \<and> unitCompare xs ys \<le> 0))"
  by auto

lemma unitCompare_trans:
  "unitCompare a b \<le> 0 \<Longrightarrow> unitCompare b d \<le> 0 \<Longrightarrow> unitCompare a d \<le> 0"
proof (induction a arbitrary: b d)
  case Nil
  then show ?case by (cases d) simp_all
next
  case (Cons x xs)
  from Cons.prems(1) obtain y ys where b: "b = y # ys"
    by (cases b) auto
  from Cons.prems(2) b obtain z zs where d: "d = z # zs"
    by (cases d) auto
  have xy: "(of_char x :: nat) < of_char y \<or> ((of_char x :: nat) = of_char y \<and> unitCompare xs ys \<le> 0)"
    using Cons.prems(1) unfolding b unitCompare_Cons_le .
  have yz: "(of_char y :: nat) < of_char z \<or> ((of_char y :: nat) = of_char z \<and> unitCompare ys zs \<le> 0)"
    using Cons.prems(2) unfolding b d unitCompare_Cons_le .
  have "(of_char x :: nat) < of_char z \<or> ((of_char x :: nat) = of_char z \<and> unitCompare xs zs \<le> 0)"
    using xy yz Cons.IH [of ys zs] by auto
  then show ?case
    unfolding d unitCompare_Cons_le .
qed

lemma consistent_unitCompare: "consistent unitCompare"
  unfolding consistent_def using unitCompare_flip unitCompare_trans by blast

lemma strict_from_le:
  "distinct xs \<Longrightarrow> sorted_wrt (\<lambda>a b. c a b \<le> 0) xs \<Longrightarrow>
   (\<forall>a\<in>set xs. \<forall>b\<in>set xs. a \<noteq> b \<longrightarrow> c a b \<noteq> 0) \<Longrightarrow>
   sorted_wrt (\<lambda>a b. c a b < (0::int)) xs"
  by (induction xs) (auto simp: less_le)

lemma sort_cmp_unique:
  assumes c: "consistent c"
    and d1: "distinct xs" and d2: "distinct ys"
    and same: "set ys = set xs"
    and noties: "\<forall>a\<in>set xs. \<forall>b\<in>set xs. a \<noteq> b \<longrightarrow> c a b \<noteq> 0"
  shows "sort_cmp c ys = sort_cmp c xs"
proof -
  have dx: "distinct (sort_cmp c xs)"
    using d1 mset_sort_cmp [of c xs] by (metis distinct_count_atmost_1 set_mset_mset)
  have dy: "distinct (sort_cmp c ys)"
    using d2 mset_sort_cmp [of c ys] by (metis distinct_count_atmost_1 set_mset_mset)
  have sx: "sorted_wrt (\<lambda>a b. c a b < 0) (sort_cmp c xs)"
    using dx sorted_sort_cmp [OF c, of xs] noties
    by (intro strict_from_le) (simp_all add: set_sort_cmp)
  have sy: "sorted_wrt (\<lambda>a b. c a b < 0) (sort_cmp c ys)"
    using dy sorted_sort_cmp [OF c, of ys] noties same
    by (intro strict_from_le) (simp_all add: set_sort_cmp)
  have irrefl: "\<not> c a a < 0" for a
    by (simp add: consistent_refl [OF c])
  have asym: "c a b < 0 \<Longrightarrow> \<not> c b a < 0" for a b
    using consistent_flip [OF c, of a b] by simp
  show ?thesis
    using strict_sorted_unique [of "\<lambda>a b. c a b < 0", OF irrefl asym sy sx] same
    by (simp add: set_sort_cmp)
qed

lemma store_inv_distinct_values: "store_inv m \<Longrightarrow> distinct (map snd m)"
  by (induction m) (force simp: store_inv_def list_all_iff image_iff)+

subsection \<open>Listing\<close>

text \<open>
  Claim C4, as the code has it. For a consistent \<open>localeCompare\<close>, \<open>GET /api/items\<close>
  answers 200 with all items of the map, ordered by section and, within a section, by
  name. Items that tie on section and name keep their insertion order, so the answer is
  a function of the item set only when no two different items tie.
\<close>

theorem list_sorted:
  assumes "consistent lc"
  shows "getItems lc st = \<lparr>status = 200, body = ItemsBody (listItems lc st)\<rparr>
       \<and> mset (listItems lc st) = mset (map snd (items st))
       \<and> sorted_wrt (\<lambda>a b. lc (item_section a) (item_section b) < 0
                          \<or> (lc (item_section a) (item_section b) = 0
                              \<and> lc (item_name a) (item_name b) \<le> 0)) (listItems lc st)
       \<and> (\<forall>k. filter (\<lambda>y. compareItems lc k y = 0) (listItems lc st)
               = filter (\<lambda>y. compareItems lc k y = 0) (map snd (items st)))
       \<and> (\<forall>st2. store_inv (items st) \<and> store_inv (items st2)
               \<and> set (map snd (items st2)) = set (map snd (items st))
               \<and> (\<forall>a\<in>set (map snd (items st)). \<forall>b\<in>set (map snd (items st)).
                     a \<noteq> b \<longrightarrow> compareItems lc a b \<noteq> 0)
             \<longrightarrow> listItems lc st2 = listItems lc st)"
proof -
  have c: "consistent (compareItems lc)"
    using assms by (rule consistent_compareItems)
  have "sorted_wrt (\<lambda>a b. compareItems lc a b \<le> 0) (listItems lc st)"
    unfolding listItems_def using c by (rule sorted_sort_cmp)
  then have sorted: "sorted_wrt (\<lambda>a b. lc (item_section a) (item_section b) < 0
                          \<or> (lc (item_section a) (item_section b) = 0
                              \<and> lc (item_name a) (item_name b) \<le> 0)) (listItems lc st)"
    by (simp add: compareItems_le_iff)
  have stable: "filter (\<lambda>y. compareItems lc k y = 0) (listItems lc st)
               = filter (\<lambda>y. compareItems lc k y = 0) (map snd (items st))" for k
    unfolding listItems_def using c by (rule sort_cmp_stable)
  have uniq: "listItems lc st2 = listItems lc st"
    if "store_inv (items st)" "store_inv (items st2)"
      "set (map snd (items st2)) = set (map snd (items st))"
      "\<forall>a\<in>set (map snd (items st)). \<forall>b\<in>set (map snd (items st)).
                     a \<noteq> b \<longrightarrow> compareItems lc a b \<noteq> 0" for st2
    unfolding listItems_def
    using c store_inv_distinct_values [OF that(1)] store_inv_distinct_values [OF that(2)]
      that(3) that(4)
    by (rule sort_cmp_unique)
  show ?thesis
    using sorted stable uniq
    by (simp only: getItems_def listItems_def mset_sort_cmp simp_thms) blast
qed

theorem list_sorted_witness:
  "consistent unitCompare
   \<and> listItems unitCompare \<lparr>items = [(''c3'', bobSoda), (''a1'', amyPie),
        (''d4'', \<lparr>item_id = ''d4'', item_name = ''Amy'', item_dish = ''Dip'',
                 item_section = ''appetizers'', createdAt = 7, updatedAt = 7\<rparr>)],
        backend = Firestore []\<rparr>
     = [\<lparr>item_id = ''d4'', item_name = ''Amy'', item_dish = ''Dip'',
                 item_section = ''appetizers'', createdAt = 7, updatedAt = 7\<rparr>, bobSoda, amyPie]"
proof -
  have "listItems unitCompare \<lparr>items = [(''c3'', bobSoda), (''a1'', amyPie),
        (''d4'', \<lparr>item_id = ''d4'', item_name = ''Amy'', item_dish = ''Dip'',
                 item_section = ''appetizers'', createdAt = 7, updatedAt = 7\<rparr>)],
        backend = Firestore []\<rparr>
     = [\<lparr>item_id = ''d4'', item_name = ''Amy'', item_dish = ''Dip'',
                 item_section = ''appetizers'', createdAt = 7, updatedAt = 7\<rparr>, bobSoda, amyPie]"
    by (simp add: listItems_def sort_cmp_def compareItems_def amyPie_def bobSoda_def)
  then show ?thesis
    using consistent_unitCompare list_sorted [OF consistent_unitCompare,
        of "\<lparr>items = [(''c3'', bobSoda), (''a1'', amyPie),
        (''d4'', \<lparr>item_id = ''d4'', item_name = ''Amy'', item_dish = ''Dip'',
                 item_section = ''appetizers'', createdAt = 7, updatedAt = 7\<rparr>)],
        backend = Firestore []\<rparr>"]
    by blast
qed

text \<open>
  Claim C4 as stated fails: two maps holding the same two items, inserted in opposite
  orders, are listed in different orders when the items tie on section and name.
\<close>

theorem list_same_set_counterexample:
  "set (map snd (items \<lparr>items = [(''a1'', amyPie), (''b2'', amyCake)], backend = FlatFile [amyPie, amyCake]\<rparr>))
     = set (map snd (items \<lparr>items = [(''b2'', amyCake), (''a1'', amyPie)], backend = FlatFile [amyCake, amyPie]\<rparr>))
   \<and> listItems unitCompare \<lparr>items = [(''a1'', amyPie), (''b2'', amyCake)], backend = FlatFile [amyPie, amyCake]\<rparr>
       = [amyPie, amyCake]
   \<and> listItems unitCompare \<lparr>items = [(''b2'', amyCake), (''a1'', amyPie)], backend = FlatFile [amyCake, amyPie]\<rparr>
       = [amyCake, amyPie]
   \<and> [amyPie, amyCake] \<noteq> [amyCake, amyPie]"
  by (simp add: listItems_def sort_cmp_def compareItems_def amyPie_def amyCake_def insert_commute)

subsection \<open>Update\<close>

text \<open>
  Claim C9. A \<open>PUT\<close> whose body fails validation is answered with 400 and the
  validation message whether or not the id exists, and nothing changes: validation comes
  before the lookup.
\<close>

theorem put_validation_first:
  "validateItem reqBody = Inl e \<Longrightarrow>
     putItem io now i reqBody st = (\<lparr>status = 400, body = ErrorBody e\<rparr>, st)"
  by (simp add: putItem_def)

theorem put_validation_first_witness:
  "validateItem (JObj [(''name'', JStr ''Amy''), (''section'', JStr ''dessert'')]) = Inl ''Dish is required''
   \<and> map_of (items \<lparr>items = [(''a1'', amyPie)], backend = FlatFile [amyPie]\<rparr>) ''zz'' = None
   \<and> putItem True 200 ''zz'' (JObj [(''name'', JStr ''Amy''), (''section'', JStr ''dessert'')])
        \<lparr>items = [(''a1'', amyPie)], backend = FlatFile [amyPie]\<rparr>
      = (\<lparr>status = 400, body = ErrorBody ''Dish is required''\<rparr>,
         \<lparr>items = [(''a1'', amyPie)], backend = FlatFile [amyPie]\<rparr>)"
proof -
  have v: "validateItem (JObj [(''name'', JStr ''Amy''), (''section'', JStr ''dessert'')])
      = Inl ''Dish is required''"
    by code_simp
  show ?thesis
    using v put_validation_first [OF v, where io = True and now = 200 and i = "''zz''"
        and st = "\<lparr>items = [(''a1'', amyPie)], backend = FlatFile [amyPie]\<rparr>"]
    by simp
qed

text \<open>
  Claim C5. For a valid body: an absent id is answered with 404 and nothing changes; a
  present id gets the validated name, dish and section and \<open>updatedAt = now\<close>, keeps its
  \<open>id\<close> and \<open>createdAt\<close>, stays at its place in the map, leaves every other key alone,
  and once flushed the answer is 200 with the updated item.
\<close>

theorem put_merges:
  assumes "validateItem reqBody = Inr v"
  shows "(map_of (items st) i = None \<longrightarrow>
            putItem io now i reqBody st = (\<lparr>status = 404, body = ErrorBody ''Not found''\<rparr>, st))
       \<and> (\<forall>existing. map_of (items st) i = Some existing \<longrightarrow>
            (let updated = existing\<lparr>item_name := v_name v, item_dish := v_dish v,
                                    item_section := v_section v, updatedAt := now\<rparr>;
                 r = fst (putItem io now i reqBody st);
                 st' = snd (putItem io now i reqBody st)
             in item_id updated = item_id existing \<and> createdAt updated = createdAt existing
                \<and> updatedAt updated = now
                \<and> map_of (items st') i = Some updated
                \<and> (\<forall>k. k \<noteq> i \<longrightarrow> map_of (items st') k = map_of (items st) k)
                \<and> map fst (items st') = map fst (items st)
                \<and> (io \<longrightarrow> r = \<lparr>status = 200, body = ItemBody updated\<rparr>)
                \<and> (status r = 200 \<longrightarrow> body r = ItemBody updated)))"
proof (intro conjI allI impI)
  assume "map_of (items st) i = None"
  then show "putItem io now i reqBody st = (\<lparr>status = 404, body = ErrorBody ''Not found''\<rparr>, st)"
    using assms by (simp add: putItem_def)
next
  fix existing
  assume ex: "map_of (items st) i = Some existing"
  let ?u = "merged existing v now"
  let ?st1 = "st\<lparr>items := AList.update i ?u (items st)\<rparr>"
  have put: "putItem io now i reqBody st =
      (case saveToDisk io ?st1 of
         Inl err \<Rightarrow> (\<lparr>status = 500, body = ErrorBody ''Failed to update item''\<rparr>, ?st1)
       | Inr st2 \<Rightarrow> (\<lparr>status = 200, body = ItemBody ?u\<rparr>, st2))"
    using assms ex by (simp add: putItem_def Let_def)
  have its: "items (snd (putItem io now i reqBody st)) = AList.update i ?u (items st)"
    unfolding put by (auto split: sum.splits dest: saveToDisk_items)
  have ok: "io \<Longrightarrow> fst (putItem io now i reqBody st) = \<lparr>status = 200, body = ItemBody ?u\<rparr>"
    unfolding put by (auto split: sum.splits dest: saveToDisk_Inl)
  have st200: "status (fst (putItem io now i reqBody st)) = 200 \<Longrightarrow>
      body (fst (putItem io now i reqBody st)) = ItemBody ?u"
    unfolding put by (auto split: sum.splits)
  show "let updated = existing\<lparr>item_name := v_name v, item_dish := v_dish v,
                                    item_section := v_section v, updatedAt := now\<rparr>;
                 r = fst (putItem io now i reqBody st);
                 st' = snd (putItem io now i reqBody st)
             in item_id updated = item_id existing \<and> createdAt updated = createdAt existing
                \<and> updatedAt updated = now
                \<and> map_of (items st') i = Some updated
                \<and> (\<forall>k. k \<noteq> i \<longrightarrow> map_of (items st') k = map_of (items st) k)
                \<and> map fst (items st') = map fst (items st)
                \<and> (io \<longrightarrow> r = \<lparr>status = 200, body = ItemBody updated\<rparr>)
                \<and> (status r = 200 \<longrightarrow> body r = ItemBody updated)"
    using ok st200 ex
    by (simp add: Let_def its update_conv' update_keys_present merged_def)
qed

theorem put_merges_witness:
  "validateItem (JObj [(''name'', JStr ''Amy''), (''dish'', JStr '' Fruit Pie''), (''section'', JStr ''Dessert'')])
     = Inr \<lparr>v_name = ''Amy'', v_dish = ''Fruit Pie'', v_section = ''dessert''\<rparr>
   \<and> putItem True 200 ''a1'' (JObj [(''name'', JStr ''Amy''), (''dish'', JStr '' Fruit Pie''), (''section'', JStr ''Dessert'')])
        \<lparr>items = [(''a1'', amyPie)], backend = FlatFile [amyPie]\<rparr>
      = (\<lparr>status = 200, body = ItemBody (amyPie\<lparr>item_dish := ''Fruit Pie'', updatedAt := 200\<rparr>)\<rparr>,
         \<lparr>items = [(''a1'', amyPie\<lparr>item_dish := ''Fruit Pie'', updatedAt := 200\<rparr>)],
          backend = FlatFile [amyPie\<lparr>item_dish := ''Fruit Pie'', updatedAt := 200\<rparr>]\<rparr>)
   \<and> putItem True 200 ''zz'' (JObj [(''name'', JStr ''Amy''), (''dish'', JStr '' Fruit Pie''), (''section'', JStr ''Dessert'')])
        \<lparr>items = [(''a1'', amyPie)], backend = FlatFile [amyPie]\<rparr>
      = (\<lparr>status = 404, body = ErrorBody ''Not found''\<rparr>,
         \<lparr>items = [(''a1'', amyPie)], backend = FlatFile [amyPie]\<rparr>)"
proof -
  let ?p = "JObj [(''name'', JStr ''Amy''), (''dish'', JStr '' Fruit Pie''), (''section'', JStr ''Dessert'')]"
  let ?st = "\<lparr>items = [(''a1'', amyPie)], backend = FlatFile [amyPie]\<rparr>"
  have v: "validateItem ?p = Inr \<lparr>v_name = ''Amy'', v_dish = ''Fruit Pie'', v_section = ''dessert''\<rparr>"
    by code_simp
  have absent: "map_of (items ?st) ''zz'' = None"
    by simp
  have present: "map_of (items ?st) ''a1'' = Some amyPie"
    by simp
  have nf: "putItem True 200 ''zz'' ?p ?st = (\<lparr>status = 404, body = ErrorBody ''Not found''\<rparr>, ?st)"
    using put_merges [OF v, where st = ?st and i = "''zz''" and io = True and now = 200] absent by blast
  have "fst (putItem True 200 ''a1'' ?p ?st)
      = \<lparr>status = 200, body = ItemBody (amyPie\<lparr>item_dish := ''Fruit Pie'', updatedAt := 200\<rparr>)\<rparr>"
    using put_merges [OF v, where st = ?st and i = "''a1''" and io = True and now = 200] present
    by (simp add: Let_def amyPie_def)
  moreover have "snd (putItem True 200 ''a1'' ?p ?st)
      = \<lparr>items = [(''a1'', amyPie\<lparr>item_dish := ''Fruit Pie'', updatedAt := 200\<rparr>)],
          backend = FlatFile [amyPie\<lparr>item_dish := ''Fruit Pie'', updatedAt := 200\<rparr>]\<rparr>"
    using v by (simp add: putItem_def saveToDisk_def merged_def amyPie_def Let_def)
  ultimately show ?thesis
    using v nf by (simp add: prod_eq_iff)
qed

lemma validateItem_omitted:
  assumes "getProp p ''name'' = None \<or> getProp p ''dish'' = None \<or> getProp p ''section'' = None"
  shows "\<exists>e \<in> {NameRequired, DishRequired, InvalidSection}. validateItem p = Inl e"
proof -
  have sec: "getProp p ''section'' = None \<Longrightarrow>
      stringOr (\<lambda>s. toLowerCase (trim s)) (getProp p ''section'') \<notin> set allowed"
    by (simp add: allowed_def)
  show ?thesis
    using assms sec
    by (auto simp: validateItem_def Let_def stringOr_trim_blank)
qed

text \<open>
  Claim C6, as the code has it. A \<open>PUT\<close> body that omits \<open>name\<close>, \<open>dish\<close> or
  \<open>section\<close> is rejected with 400 and one of the three validation messages, and the store
  is left as it was.
\<close>

theorem put_omitted_field_rejected:
  assumes "getProp reqBody ''name'' = None \<or> getProp reqBody ''dish'' = None
           \<or> getProp reqBody ''section'' = None"
  shows "status (fst (putItem io now i reqBody st)) = 400
       \<and> body (fst (putItem io now i reqBody st))
             \<in> {ErrorBody NameRequired, ErrorBody DishRequired, ErrorBody InvalidSection}
       \<and> snd (putItem io now i reqBody st) = st"
proof -
  from validateItem_omitted [OF assms] obtain e
    where e: "e \<in> {NameRequired, DishRequired, InvalidSection}" and v: "validateItem reqBody = Inl e"
    by blast
  have "putItem io now i reqBody st = (\<lparr>status = 400, body = ErrorBody e\<rparr>, st)"
    using v by (simp add: putItem_def)
  then show ?thesis using e by auto
qed

theorem put_omitted_field_rejected_witness:
  "getProp (JObj [(''name'', JStr ''Amy''), (''section'', JStr ''dessert'')]) ''dish'' = None
   \<and> map_of (items \<lparr>items = [(''a1'', amyPie)], backend = FlatFile [amyPie]\<rparr>) ''a1'' = Some amyPie
   \<and> status (fst (putItem True 200 ''a1'' (JObj [(''name'', JStr ''Amy''), (''section'', JStr ''dessert'')])
        \<lparr>items = [(''a1'', amyPie)], backend = FlatFile [amyPie]\<rparr>)) = 400
   \<and> snd (putItem True 200 ''a1'' (JObj [(''name'', JStr ''Amy''), (''section'', JStr ''dessert'')])
        \<lparr>items = [(''a1'', amyPie)], backend = FlatFile [amyPie]\<rparr>)
      = \<lparr>items = [(''a1'', amyPie)], backend = FlatFile [amyPie]\<rparr>"
proof -
  have h: "getProp (JObj [(''name'', JStr ''Amy''), (''section'', JStr ''dessert'')]) ''name'' = None
     \<or> getProp (JObj [(''name'', JStr ''Amy''), (''section'', JStr ''dessert'')]) ''dish'' = None
     \<or> getProp (JObj [(''name'', JStr ''Amy''), (''section'', JStr ''dessert'')]) ''section'' = None"
    by simp
  show ?thesis
    using put_omitted_field_rejected [OF h, where io = True and now = 200 and i = "''a1''"
        and st = "\<lparr>items = [(''a1'', amyPie)], backend = FlatFile [amyPie]\<rparr>"]
    by simp
qed

text \<open>
  Claim C6 as stated fails: a body without \<open>dish\<close>, sent to an existing id, is
  answered with 400, not merged.
\<close>

theorem put_omitted_field_counterexample:
  "putItem True 200 ''a1'' (JObj [(''name'', JStr ''Amy''), (''section'', JStr ''dessert'')])
        \<lparr>items = [(''a1'', amyPie)], backend = FlatFile [amyPie]\<rparr>
      = (\<lparr>status = 400, body = ErrorBody ''Dish is required''\<rparr>,
         \<lparr>items = [(''a1'', amyPie)], backend = FlatFile [amyPie]\<rparr>)"
  by code_simp

subsection \<open>Delete\<close>

text \<open>
  Claim C7. An absent id is answered with 404 and the store is unchanged. A present id
  is removed from the map, the other keys are untouched, the flush is issued (204 once it
  succeeded), the list that follows holds exactly the remaining items, none of them with
  that id, and a second delete of the id is answered with 404.
\<close>

theorem delete_behaviour:
  "(map_of (items st) i = None \<longrightarrow>
      deleteItem io i st = (\<lparr>status = 404, body = ErrorBody ''Not found''\<rparr>, st))
   \<and> (map_of (items st) i \<noteq> None \<longrightarrow>
        (let r = fst (deleteItem io i st); st' = snd (deleteItem io i st)
         in items st' = AList.delete i (items st)
            \<and> map_of (items st') i = None
            \<and> (\<forall>k. k \<noteq> i \<longrightarrow> map_of (items st') k = map_of (items st) k)
            \<and> (io \<longrightarrow> r = \<lparr>status = 204, body = NoBody\<rparr>
                      \<and> saveToDisk io (st\<lparr>items := AList.delete i (items st)\<rparr>) = Inr st')
            \<and> set (listItems lc st') = snd ` {e \<in> set (items st). fst e \<noteq> i}
            \<and> (store_inv (items st) \<longrightarrow> (\<forall>x\<in>set (listItems lc st'). item_id x \<noteq> i))
            \<and> deleteItem io2 i st' = (\<lparr>status = 404, body = ErrorBody ''Not found''\<rparr>, st')))"
proof (intro conjI impI)
  assume "map_of (items st) i = None"
  then show "deleteItem io i st = (\<lparr>status = 404, body = ErrorBody ''Not found''\<rparr>, st)"
    by (simp add: deleteItem_def)
next
  assume "map_of (items st) i \<noteq> None"
  then obtain existing where ex: "map_of (items st) i = Some existing"
    by blast
  let ?st1 = "st\<lparr>items := AList.delete i (items st)\<rparr>"
  have del: "deleteItem io i st =
      (case saveToDisk io ?st1 of
         Inl err \<Rightarrow> (\<lparr>status = 500, body = ErrorBody ''Failed to delete item''\<rparr>, ?st1)
       | Inr st2 \<Rightarrow> (\<lparr>status = 204, body = NoBody\<rparr>, st2))"
    using ex by (simp add: deleteItem_def Let_def)
  have its: "items (snd (deleteItem io i st)) = AList.delete i (items st)"
    unfolding del by (auto split: sum.splits dest: saveToDisk_items)
  have ok: "io \<Longrightarrow> fst (deleteItem io i st) = \<lparr>status = 204, body = NoBody\<rparr>
      \<and> saveToDisk io ?st1 = Inr (snd (deleteItem io i st))"
    unfolding del by (auto split: sum.splits dest: saveToDisk_Inl)
  have gone: "map_of (AList.delete i (items st)) i = None"
    by (simp add: delete_conv')
  have again: "deleteItem io2 i (snd (deleteItem io i st))
      = (\<lparr>status = 404, body = ErrorBody ''Not found''\<rparr>, snd (deleteItem io i st))"
    by (rule deleteItem_absent) (simp add: its gone)
  have listed: "set (listItems lc (snd (deleteItem io i st))) = snd ` {e \<in> set (items st). fst e \<noteq> i}"
    by (auto simp: listItems_def set_sort_cmp its AList.delete_eq image_iff)
  have noid: "\<forall>x\<in>set (listItems lc (snd (deleteItem io i st))). item_id x \<noteq> i"
    if "store_inv (items st)"
    using that unfolding listed by (auto simp: store_inv_def list_all_iff)
  show "let r = fst (deleteItem io i st); st' = snd (deleteItem io i st)
         in items st' = AList.delete i (items st)
            \<and> map_of (items st') i = None
            \<and> (\<forall>k. k \<noteq> i \<longrightarrow> map_of (items st') k = map_of (items st) k)
            \<and> (io \<longrightarrow> r = \<lparr>status = 204, body = NoBody\<rparr>
                      \<and> saveToDisk io (st\<lparr>items := AList.delete i (items st)\<rparr>) = Inr st')
            \<and> set (listItems lc st') = snd ` {e \<in> set (items st). fst e \<noteq> i}
            \<and> (store_inv (items st) \<longrightarrow> (\<forall>x\<in>set (listItems lc st'). item_id x \<noteq> i))
            \<and> deleteItem io2 i st' = (\<lparr>status = 404, body = ErrorBody ''Not found''\<rparr>, st')"
    unfolding Let_def
  proof (intro conjI impI allI)
    show "items (snd (deleteItem io i st)) = AList.delete i (items st)"
      by (rule its)
    show "map_of (items (snd (deleteItem io i st))) i = None"
      by (simp add: its gone)
    show "map_of (items (snd (deleteItem io i st))) k = map_of (items st) k" if "k \<noteq> i" for k
      using that by (simp add: its)
    show "fst (deleteItem io i st) = \<lparr>status = 204, body = NoBody\<rparr>" if io
      using ok [OF that] by simp
    show "saveToDisk io (st\<lparr>items := AList.delete i (items st)\<rparr>) = Inr (snd (deleteItem io i st))" if io
      using ok [OF that] by simp
    show "set (listItems lc (snd (deleteItem io i st))) = snd ` {e \<in> set (items st). fst e \<noteq> i}"
      by (rule listed)
    show "\<forall>x\<in>set (listItems lc (snd (deleteItem io i st))). item_id x \<noteq> i" if "store_inv (items st)"
      using that by (rule noid)
    show "deleteItem io2 i (snd (deleteItem io i st))
      = (\<lparr>status = 404, body = ErrorBody ''Not found''\<rparr>, snd (deleteItem io i st))"
      by (rule again)
  qed
qed

theorem delete_behaviour_witness:
  "map_of (items \<lparr>items = [(''a1'', amyPie), (''c3'', bobSoda)], backend = FlatFile [amyPie, bobSoda]\<rparr>) ''a1'' \<noteq> None
   \<and> store_inv (items \<lparr>items = [(''a1'', amyPie), (''c3'', bobSoda)], backend = FlatFile [amyPie, bobSoda]\<rparr>)
   \<and> deleteItem True ''a1'' \<lparr>items = [(''a1'', amyPie), (''c3'', bobSoda)], backend = FlatFile [amyPie, bobSoda]\<rparr>
       = (\<lparr>status = 204, body = NoBody\<rparr>, \<lparr>items = [(''c3'', bobSoda)], backend = FlatFile [bobSoda]\<rparr>)
   \<and> listItems unitCompare \<lparr>items = [(''c3'', bobSoda)], backend = FlatFile [bobSoda]\<rparr> = [bobSoda]
   \<and> deleteItem True ''a1'' \<lparr>items = [(''c3'', bobSoda)], backend = FlatFile [bobSoda]\<rparr>
       = (\<lparr>status = 404, body = ErrorBody ''Not found''\<rparr>, \<lparr>items = [(''c3'', bobSoda)], backend = FlatFile [bobSoda]\<rparr>)"
proof -
  let ?st = "\<lparr>items = [(''a1'', amyPie), (''c3'', bobSoda)], backend = FlatFile [amyPie, bobSoda]\<rparr>"
  let ?st' = "\<lparr>items = [(''c3'', bobSoda)], backend = FlatFile [bobSoda]\<rparr>"
  have present: "map_of (items ?st) ''a1'' \<noteq> None"
    by simp
  have inv: "store_inv (items ?st)"
    by (simp add: store_inv_def amyPie_def bobSoda_def)
  have run: "deleteItem True ''a1'' ?st = (\<lparr>status = 204, body = NoBody\<rparr>, ?st')"
    by (simp add: deleteItem_def saveToDisk_def)
  have absent: "map_of (items ?st') ''a1'' = None"
    by simp
  have again: "deleteItem True ''a1'' ?st' = (\<lparr>status = 404, body = ErrorBody ''Not found''\<rparr>, ?st')"
    using delete_behaviour [where st = ?st' and i = "''a1''" and io = True] absent by blast
  have lst: "listItems unitCompare ?st' = [bobSoda]"
    by (simp add: listItems_def sort_cmp_def)
  show ?thesis
    using present inv run again lst
      delete_behaviour [where st = ?st and i = "''a1''" and io = True and lc = unitCompare]
    by blast
qed

subsection \<open>Create\<close>

text \<open>
  Claim C10. A create whose generated id is already a key of the map replaces the item
  under that key: no check, no new id. The map keeps its keys and its size, every other
  key keeps its item, the old entry is gone, and once flushed the answer is 201.
\<close>

theorem post_collision_replaces:
  assumes "validateItem reqBody = Inr v"
    and "map_of (items st) (newId rnd36) = Some old"
  shows "(let it = \<lparr>item_id = newId rnd36, item_name = v_name v, item_dish = v_dish v,
                    item_section = v_section v, createdAt = now, updatedAt = now\<rparr>;
              r = fst (postItem io rnd36 now reqBody st);
              st' = snd (postItem io rnd36 now reqBody st)
          in map_of (items st') (newId rnd36) = Some it
             \<and> length (items st') = length (items st)
             \<and> map fst (items st') = map fst (items st)
             \<and> (\<forall>k. k \<noteq> newId rnd36 \<longrightarrow> map_of (items st') k = map_of (items st) k)
             \<and> (distinct (map fst (items st)) \<and> old \<noteq> it \<longrightarrow> (newId rnd36, old) \<notin> set (items st'))
             \<and> (io \<longrightarrow> r = \<lparr>status = 201, body = ItemBody it\<rparr>))"
proof -
  let ?it = "\<lparr>item_id = newId rnd36, item_name = v_name v, item_dish = v_dish v,
                    item_section = v_section v, createdAt = now, updatedAt = now\<rparr>"
  let ?st1 = "st\<lparr>items := AList.update (newId rnd36) ?it (items st)\<rparr>"
  have post: "postItem io rnd36 now reqBody st =
      (case saveToDisk io ?st1 of
         Inl err \<Rightarrow> (\<lparr>status = 500, body = ErrorBody ''Failed to create item''\<rparr>, ?st1)
       | Inr st2 \<Rightarrow> (\<lparr>status = 201, body = ItemBody ?it\<rparr>, st2))"
    using assms(1) by (simp add: postItem_def Let_def)
  have its: "items (snd (postItem io rnd36 now reqBody st)) = AList.update (newId rnd36) ?it (items st)"
    unfolding post by (auto split: sum.splits dest: saveToDisk_items)
  have ok: "io \<Longrightarrow> fst (postItem io rnd36 now reqBody st) = \<lparr>status = 201, body = ItemBody ?it\<rparr>"
    unfolding post by (auto split: sum.splits dest: saveToDisk_Inl)
  have keys: "map fst (AList.update (newId rnd36) ?it (items st)) = map fst (items st)"
    using assms(2) by (rule update_keys_present)
  have len: "length (AList.update (newId rnd36) ?it (items st)) = length (items st)"
    using arg_cong [OF keys, of length] by simp
  have lost: "distinct (map fst (items st)) \<Longrightarrow> old \<noteq> ?it \<Longrightarrow>
      (newId rnd36, old) \<notin> set (AList.update (newId rnd36) ?it (items st))"
    using update_replaces_entry [OF _ assms(2)] by blast
  show ?thesis
    using ok lost by (simp add: Let_def its keys len update_conv')
qed

theorem post_collision_replaces_witness:
  "validateItem amyPayload = Inr \<lparr>v_name = ''Amy'', v_dish = ''Salad'', v_section = ''appetizers''\<rparr>
   \<and> map_of (items \<lparr>items = [(''a1'', amyPie), (''c3'', bobSoda)],
                      backend = FlatFile [amyPie, bobSoda]\<rparr>) (newId ''0.a1'')
        = Some amyPie
   \<and> postItem True ''0.a1'' 300 amyPayload
         \<lparr>items = [(''a1'', amyPie), (''c3'', bobSoda)], backend = FlatFile [amyPie, bobSoda]\<rparr>
      = (\<lparr>status = 201, body = ItemBody \<lparr>item_id = ''a1'', item_name = ''Amy'', item_dish = ''Salad'',
                    item_section = ''appetizers'', createdAt = 300, updatedAt = 300\<rparr>\<rparr>,
         \<lparr>items = [(''a1'', \<lparr>item_id = ''a1'', item_name = ''Amy'', item_dish = ''Salad'',
                    item_section = ''appetizers'', createdAt = 300, updatedAt = 300\<rparr>), (''c3'', bobSoda)],
          backend = FlatFile [\<lparr>item_id = ''a1'', item_name = ''Amy'', item_dish = ''Salad'',
                    item_section = ''appetizers'', createdAt = 300, updatedAt = 300\<rparr>, bobSoda]\<rparr>)"
proof -
  let ?st = "\<lparr>items = [(''a1'', amyPie), (''c3'', bobSoda)], backend = FlatFile [amyPie, bobSoda]\<rparr>"
  have v: "validateItem amyPayload = Inr \<lparr>v_name = ''Amy'', v_dish = ''Salad'', v_section = ''appetizers''\<rparr>"
    by code_simp
  have hit: "map_of (items ?st) (newId ''0.a1'') = Some amyPie"
    by (simp add: newId_def slice_def)
  have "fst (postItem True ''0.a1'' 300 amyPayload ?st)
      = \<lparr>status = 201, body = ItemBody \<lparr>item_id = ''a1'', item_name = ''Amy'', item_dish = ''Salad'',
                    item_section = ''appetizers'', createdAt = 300, updatedAt = 300\<rparr>\<rparr>"
    using post_collision_replaces [OF v hit, where io = True and now = 300]
    by (simp add: Let_def newId_def slice_def)
  moreover have "snd (postItem True ''0.a1'' 300 amyPayload ?st)
      = \<lparr>items = [(''a1'', \<lparr>item_id = ''a1'', item_name = ''Amy'', item_dish = ''Salad'',
                    item_section = ''appetizers'', createdAt = 300, updatedAt = 300\<rparr>), (''c3'', bobSoda)],
          backend = FlatFile [\<lparr>item_id = ''a1'', item_name = ''Amy'', item_dish = ''Salad'',
                    item_section = ''appetizers'', createdAt = 300, updatedAt = 300\<rparr>, bobSoda]\<rparr>"
    using v by (simp add: postItem_def saveToDisk_def Let_def newId_def slice_def)
  ultimately show ?thesis
    using v by (simp add: prod_eq_iff newId_def slice_def)
qed

subsection \<open>Flush and reload\<close>

lemma mergeDoc_eq: "mergeDoc old d = d"
  by (cases old, cases d) (simp add: mergeDoc_def)

lemma applyOp_BSet: "applyOp (BSet i d) col = AList.update i d col"
  by (simp add: mergeDoc_eq split: option.splits)

lemma fold_sets_keys:
  "fst ` set (fold applyOp (map (\<lambda>(i, it). BSet i (f it)) mem) col)
     = fst ` set col \<union> fst ` set mem"
proof (induction mem arbitrary: col)
  case Nil
  then show ?case by simp
next
  case (Cons e mem)
  obtain i it where e: "e = (i, it)" by (cases e)
  show ?case
    unfolding e by (auto simp: Cons.IH applyOp_BSet dom_update simp del: applyOp.simps)
qed

lemma fold_deletes_keys:
  "fst ` set (fold applyOp (map BDelete ks) col) = fst ` set col - set ks"
proof (induction ks arbitrary: col)
  case Nil
  then show ?case by simp
next
  case (Cons k ks)
  have "fst ` set (AList.delete k col) = fst ` set col - {k}"
    using delete_keys [of k col] by (metis set_map set_removeAll)
  then show ?case
    by (simp add: Cons.IH) blast
qed

lemma fold_applyOp_distinct:
  "distinct (map fst col) \<Longrightarrow> distinct (map fst (fold applyOp ops col))"
proof (induction ops arbitrary: col)
  case Nil
  then show ?case by simp
next
  case (Cons op ops)
  have "distinct (map fst (applyOp op col))"
    using Cons.prems by (cases op) (simp_all add: distinct_update distinct_delete)
  then show ?case
    using Cons.IH by simp
qed

lemma fold_sets_map_of:
  "distinct (map fst mem) \<Longrightarrow>
   map_of (fold applyOp (map (\<lambda>(i, it). BSet i (f it)) mem) col) k
     = (case map_of mem k of Some it \<Rightarrow> Some (f it) | None \<Rightarrow> map_of col k)"
proof (induction mem arbitrary: col)
  case Nil
  then show ?case by simp
next
  case (Cons e mem)
  obtain i it where e: "e = (i, it)" by (cases e)
  have fresh: "map_of mem i = None"
    using Cons.prems unfolding e by (simp add: map_of_eq_None_iff)
  have d: "distinct (map fst mem)"
    using Cons.prems by simp
  show ?case
    unfolding e using fresh
    by (simp add: Cons.IH [OF d] applyOp_BSet update_conv' del: applyOp.simps
        split: option.splits)
qed

lemma fold_deletes_map_of:
  "map_of (fold applyOp (map BDelete ks) col) k = (if k \<in> set ks then None else map_of col k)"
  by (induction ks arbitrary: col) (simp_all add: delete_conv')

lemma commit_keys:
  "fst ` set (commit (buildBatch mem col) col) = fst ` set mem"
  by (auto simp: commit_def buildBatch_def Let_def fold_deletes_keys fold_sets_keys)

lemma commit_distinct:
  "distinct (map fst col) \<Longrightarrow> distinct (map fst (commit (buildBatch mem col) col))"
  unfolding commit_def by (rule fold_applyOp_distinct)

lemma commit_map_of:
  assumes "distinct (map fst mem)"
  shows "map_of (commit (buildBatch mem col) col) k = map_option rest (map_of mem k)"
proof (cases "map_of mem k")
  case None
  then have notin: "k \<notin> fst ` set mem"
    by (simp add: map_of_eq_None_iff)
  show ?thesis
  proof (cases "k \<in> fst ` set col")
    case True
    with notin None show ?thesis
      by (simp add: commit_def buildBatch_def Let_def fold_deletes_map_of)
  next
    case False
    then have "map_of col k = None"
      by (simp add: map_of_eq_None_iff)
    with None show ?thesis
      by (simp add: commit_def buildBatch_def Let_def fold_deletes_map_of
          fold_sets_map_of [OF assms])
  qed
next
  case (Some it)
  then have "k \<in> fst ` set mem"
    by (metis map_of_eq_None_iff option.distinct(1))
  with Some show ?thesis
    by (simp add: commit_def buildBatch_def Let_def fold_deletes_map_of
        fold_sets_map_of [OF assms])
qed







lemma store_inv_ids: "store_inv m \<Longrightarrow> map item_id (map snd m) = map fst m"
  by (induction m) (auto simp: store_inv_def)

lemma fromDoc_rest: "fromDoc (item_id it) (rest it) = it"
  by (simp add: fromDoc_def rest_def)

lemma set_update_subset: "set (AList.update k v al) \<subseteq> insert (k, v) (set al)"
  by (induction al) auto

lemma set_delete_subset: "set (AList.delete k al) \<subseteq> set al"
  by (auto simp: AList.delete_eq)

lemma store_inv_update:
  assumes "store_inv m" "item_id it = k"
  shows "store_inv (AList.update k it m)"
proof -
  have "distinct (map fst (AList.update k it m))"
    using assms(1) by (simp add: store_inv_def distinct_update)
  moreover have "\<forall>e\<in>set (AList.update k it m). item_id (snd e) = fst e"
    using assms set_update_subset [of k it m]
    by (fastforce simp: store_inv_def list_all_iff)
  ultimately show ?thesis
    by (simp add: store_inv_def list_all_iff case_prod_beta)
qed

lemma store_inv_delete:
  assumes "store_inv m"
  shows "store_inv (AList.delete k m)"
proof -
  have "distinct (map fst (AList.delete k m))"
    using assms by (simp add: store_inv_def distinct_delete)
  moreover have "\<forall>e\<in>set (AList.delete k m). item_id (snd e) = fst e"
    using assms set_delete_subset [of k m]
    by (fastforce simp: store_inv_def list_all_iff)
  ultimately show ?thesis
    by (simp add: store_inv_def list_all_iff case_prod_beta)
qed

lemma commit_entries:
  assumes "distinct (map fst mem)" "distinct (map fst col)"
  shows "set (commit (buildBatch mem col) col) = (\<lambda>(i, it). (i, rest it)) ` set mem"
proof -
  have d: "distinct (map fst (commit (buildBatch mem col) col))"
    using assms(2) by (rule commit_distinct)
  have "((i, x) \<in> set (commit (buildBatch mem col) col))
      = ((i, x) \<in> (\<lambda>(i, it). (i, rest it)) ` set mem)" for i x
  proof -
    have "((i, x) \<in> set (commit (buildBatch mem col) col))
        = (map_option rest (map_of mem i) = Some x)"
      using d by (simp add: commit_map_of [OF assms(1)] flip: map_of_eq_Some_iff)
    also have "\<dots> = (\<exists>it. (i, it) \<in> set mem \<and> x = rest it)"
      using assms(1) by auto
    also have "\<dots> = ((i, x) \<in> (\<lambda>(i, it). (i, rest it)) ` set mem)"
      by (force simp: image_iff)
    finally show ?thesis .
  qed
  then show ?thesis
    by (auto simp del: split_paired_All)
qed

lemma distinct_keys_length:
  assumes "distinct (map fst xs)" "distinct (map fst ys)" "fst ` set xs = fst ` set ys"
  shows "length xs = length ys"
proof -
  have "length xs = card (set (map fst xs))"
    using assms(1) by (metis distinct_card length_map)
  also have "\<dots> = card (set (map fst ys))"
    using assms(3) by simp
  also have "\<dots> = length ys"
    using assms(2) by (metis distinct_card length_map)
  finally show ?thesis .
qed

lemma firestore_items_back:
  assumes "store_inv mem"
  shows "(\<lambda>(i, d). fromDoc i d) ` (\<lambda>(i, it). (i, rest it)) ` set mem = snd ` set mem"
proof -
  have "fromDoc i (rest it) = it" if "(i, it) \<in> set mem" for i it
    using assms that fromDoc_rest [of it] by (auto simp: store_inv_def list_all_iff)
  then show ?thesis
    by (force simp: image_iff)
qed

lemma postItem_items:
  "validateItem reqBody = Inr v \<Longrightarrow>
     items (snd (postItem io rnd36 now reqBody st))
       = AList.update (newId rnd36)
           \<lparr>item_id = newId rnd36, item_name = v_name v, item_dish = v_dish v,
             item_section = v_section v, createdAt = now, updatedAt = now\<rparr> (items st)"
  by (auto simp: postItem_def Let_def split: sum.splits dest: saveToDisk_items)







lemma backend_inv_saveToDisk:
  "backend_inv (backend st) \<Longrightarrow> saveToDisk io st = Inr st' \<Longrightarrow> backend_inv (backend st')"
  by (auto simp: saveToDisk_def commit_distinct split: backend.splits if_splits)

lemma putItem_items:
  "validateItem reqBody = Inr v \<Longrightarrow> map_of (items st) i = Some existing \<Longrightarrow>
     items (snd (putItem io now i reqBody st)) = AList.update i (merged existing v now) (items st)"
  by (auto simp: putItem_def Let_def split: sum.splits dest: saveToDisk_items)

lemma deleteItem_items:
  "map_of (items st) i = Some existing \<Longrightarrow>
     items (snd (deleteItem io i st)) = AList.delete i (items st)"
  by (auto simp: deleteItem_def Let_def split: sum.splits dest: saveToDisk_items)

lemma store_inv_postItem:
  assumes "store_inv (items st)"
  shows "store_inv (items (snd (postItem io rnd36 now reqBody st)))"
proof (cases "validateItem reqBody")
  case (Inl e)
  with assms show ?thesis by (simp add: postItem_def)
next
  case (Inr v)
  show ?thesis
    unfolding postItem_items [OF Inr] using assms by (rule store_inv_update) simp
qed

lemma store_inv_putItem:
  assumes "store_inv (items st)"
  shows "store_inv (items (snd (putItem io now i reqBody st)))"
proof (cases "validateItem reqBody")
  case (Inl e)
  with assms show ?thesis by (simp add: putItem_def)
next
  case (Inr v)
  show ?thesis
  proof (cases "map_of (items st) i")
    case None
    with Inr assms show ?thesis by (simp add: putItem_def)
  next
    case (Some existing)
    then have "(i, existing) \<in> set (items st)"
      by (rule map_of_SomeD)
    then have "item_id existing = i"
      using assms by (auto simp: store_inv_def list_all_iff)
    then have "item_id (merged existing v now) = i"
      by (simp add: merged_def)
    with assms show ?thesis
      unfolding putItem_items [OF Inr Some] by (rule store_inv_update)
  qed
qed

lemma store_inv_deleteItem:
  assumes "store_inv (items st)"
  shows "store_inv (items (snd (deleteItem io i st)))"
proof (cases "map_of (items st) i")
  case None
  with assms show ?thesis by (simp add: deleteItem_def)
next
  case (Some existing)
  show ?thesis
    unfolding deleteItem_items [OF Some] using assms by (rule store_inv_delete)
qed

lemma backend_inv_handlers:
  assumes "backend_inv (backend st)"
  shows "backend_inv (backend (snd (postItem io rnd36 now reqBody st)))"
    and "backend_inv (backend (snd (putItem io now i reqBody st)))"
    and "backend_inv (backend (snd (deleteItem io i st)))"
  using assms
  by (auto simp: postItem_def putItem_def deleteItem_def Let_def
      split: sum.splits option.splits dest!: backend_inv_saveToDisk [rotated])

lemma store_inv_fold_update:
  assumes "store_inv acc" "\<And>y. P y \<Longrightarrow> item_id (h y) = g y"
  shows "store_inv (fold (\<lambda>y m. if P y then AList.update (g y) (h y) m else m) ys acc)"
  using assms(1)
proof (induction ys arbitrary: acc)
  case Nil
  then show ?case by simp
next
  case (Cons y ys)
  have "store_inv (if P y then AList.update (g y) (h y) acc else acc)"
    using Cons.prems assms(2) [of y] by (simp add: store_inv_update)
  then show ?case
    using Cons.IH by simp
qed

lemma store_inv_loadFromDisk:
  assumes "store_inv (items st)"
  shows "store_inv (items (loadFromDisk io st))"
proof (cases io)
  case False
  with assms show ?thesis by (simp add: loadFromDisk_def)
next
  case True
  have empty: "store_inv []"
    by (simp add: store_inv_def)
  show ?thesis
  proof (cases "backend st")
    case (Firestore col)
    have "store_inv (fold (\<lambda>y m. if True then AList.update (fst y) (fromDoc (fst y) (snd y)) m else m) col [])"
      using empty by (rule store_inv_fold_update) (simp add: fromDoc_def)
    then show ?thesis
      using True Firestore by (simp add: loadFromDisk_def split_def)
  next
    case (FlatFile arr)
    have "store_inv (fold (\<lambda>it m. if item_id it \<noteq> [] then AList.update (item_id it) it m else m) arr [])"
      using empty by (rule store_inv_fold_update) simp
    then show ?thesis
      using True FlatFile by (simp add: loadFromDisk_def)
  qed
qed

text \<open>
  The lemmas above make \<open>store_inv\<close> and \<open>backend_inv\<close> invariants of the server: they
  hold of the empty map and of every collection with one document per id, and every
  handler and \<open>loadFromDisk\<close> keeps them.
\<close>

text \<open>
  Claim C2. After a flush that succeeded, the durable backend holds exactly the items of
  the map: the ids of its records are the keys of the map, which are the ids of the
  items in memory, and the records are those items, one each. This holds for the batch
  of upserts and deletes of the Firestore variant, whatever the collection held before,
  and for the rewritten flat file.
\<close>

theorem flush_reconciles:
  assumes "store_inv (items st)" and "backend_inv (backend st)"
    and "saveToDisk True st = Inr st'"
  shows "items st' = items st
       \<and> backend_ids (backend st') = set (map fst (items st'))
       \<and> backend_ids (backend st') = set (map item_id (map snd (items st')))
       \<and> set (backend_items (backend st')) = set (map snd (items st'))
       \<and> length (backend_items (backend st')) = length (items st')
       \<and> backend_inv (backend st')"
proof (cases "backend st")
  case (Firestore col)
  let ?col = "commit (buildBatch (items st) col) col"
  have st': "st' = st\<lparr>backend := Firestore ?col\<rparr>"
    using assms(3) Firestore by (simp add: saveToDisk_def)
  have dm: "distinct (map fst (items st))"
    using assms(1) by (simp add: store_inv_def)
  have dc: "distinct (map fst col)"
    using assms(2) Firestore by simp
  have d: "distinct (map fst ?col)"
    using dc by (rule commit_distinct)
  have keys: "fst ` set ?col = fst ` set (items st)"
    by (rule commit_keys)
  have len: "length ?col = length (items st)"
    using d dm keys by (rule distinct_keys_length)
  have ents: "(\<lambda>(i, d). fromDoc i d) ` set ?col = snd ` set (items st)"
    using commit_entries [OF dm dc] firestore_items_back [OF assms(1)] by simp
  show ?thesis
    using keys len ents d store_inv_ids [OF assms(1)]
    by (simp add: st')
next
  case (FlatFile arr)
  have st': "st' = st\<lparr>backend := FlatFile (map snd (items st))\<rparr>"
    using assms(3) FlatFile by (simp add: saveToDisk_def)
  show ?thesis
    using store_inv_ids [OF assms(1)] by (simp add: st')
qed

theorem flush_reconciles_witness:
  "store_inv (items \<lparr>items = [(''a1'', amyPie), (''c3'', bobSoda)],
                     backend = Firestore [(''zz'', rest amyCake), (''a1'', rest amyCake)]\<rparr>)
   \<and> backend_inv (backend \<lparr>items = [(''a1'', amyPie), (''c3'', bobSoda)],
                     backend = Firestore [(''zz'', rest amyCake), (''a1'', rest amyCake)]\<rparr>)
   \<and> saveToDisk True \<lparr>items = [(''a1'', amyPie), (''c3'', bobSoda)],
                     backend = Firestore [(''zz'', rest amyCake), (''a1'', rest amyCake)]\<rparr>
       = Inr \<lparr>items = [(''a1'', amyPie), (''c3'', bobSoda)],
               backend = Firestore [(''a1'', rest amyPie), (''c3'', rest bobSoda)]\<rparr>
   \<and> backend_ids (Firestore [(''a1'', rest amyPie), (''c3'', rest bobSoda)]) = {''a1'', ''c3''}"
proof -
  let ?st = "\<lparr>items = [(''a1'', amyPie), (''c3'', bobSoda)],
                     backend = Firestore [(''zz'', rest amyCake), (''a1'', rest amyCake)]\<rparr>"
  let ?st' = "\<lparr>items = [(''a1'', amyPie), (''c3'', bobSoda)],
               backend = Firestore [(''a1'', rest amyPie), (''c3'', rest bobSoda)]\<rparr>"
  have inv: "store_inv (items ?st)"
    by (simp add: store_inv_def amyPie_def bobSoda_def)
  have binv: "backend_inv (backend ?st)"
    by simp
  have run: "saveToDisk True ?st = Inr ?st'"
    by (simp add: saveToDisk_def commit_def buildBatch_def mergeDoc_eq)
  show ?thesis
    using inv binv run flush_reconciles [OF inv binv run] by simp
qed




end
